theory Spec2Isabelle
  imports Main "HOL-Library.Sublist"
begin

section \<open>The scripted connection double of package mockconn\<close>

text \<open>
  The development embeds \<^verbatim>\<open>mock.go\<close>: the actions of a scenario, the connection
  record with its cursor, and the four methods \<^verbatim>\<open>Read\<close>, \<^verbatim>\<open>Write\<close>, \<^verbatim>\<open>Close\<close> and
  \<^verbatim>\<open>Verify\<close>. Methods mutate the receiver in place; here each method takes the
  connection and returns it updated next to its Go results.

  Modelling decisions:
  \<^item> a byte is a \<^typ>\<open>char\<close> (eight bits), a byte slice a list of them;
  \<^item> \<^verbatim>\<open>int\<close> counts and indices are natural numbers: the cursor starts at 0, is only
    incremented, and is incremented only while it is below the scenario length;
  \<^item> every scenario slot holds an action object of its own (as the constructors
    \<^verbatim>\<open>Read\<close>, \<^verbatim>\<open>Write\<close>, \<^verbatim>\<open>Close\<close> return one per call), so the in-place shrinking of
    \<^verbatim>\<open>data\<close> through the pointer at the cursor is an update of that slot of the list;
  \<^item> an \<^verbatim>\<open>error\<close> value is kept as the format string it was built from (one
    constructor per format string) with the formatted arguments; the colour codes of the
    labels are left out;
  \<^item> the testing handle \<^verbatim>\<open>t\<close> and the two addresses are left out: \<^verbatim>\<open>t\<close> only receives
    copies of the messages and the summary, and never decides a branch that changes the
    cursor, the scenario, the error list or a returned value;
  \<^item> a run-time panic is a result of its own, next to the state the call had reached.
\<close>

subsection \<open>Actions\<close>

type_synonym byte = char
type_synonym bytes = "byte list"

datatype ActionType = ReadActionType | WriteActionType | CloseActionType | nullActionType

datatype Action =
    readAction (data: bytes) (original: bytes)
  | writeAction (data: bytes) (original: bytes)
  | closeAction
  | nullAction

fun Type :: "Action \<Rightarrow> ActionType" where
  "Type (readAction d orig) = ReadActionType"
| "Type (writeAction d orig) = WriteActionType"
| "Type closeAction = CloseActionType"
| "Type nullAction = nullActionType"

definition Read :: "bytes \<Rightarrow> Action" where
  "Read d = readAction d d"

definition Write :: "bytes \<Rightarrow> Action" where
  "Write d = writeAction d d"

definition Close :: "Action" where
  "Close = closeAction"

subsection \<open>Errors and panics\<close>

text \<open>
  One constructor per message of \<^verbatim>\<open>mock.go\<close>; the number is the 1-based scenario index
  \<^verbatim>\<open>c.current+1\<close> the message prints.
  \<^item> \<open>AlreadyClosed\<close>: \<^verbatim>\<open>errors.New("already closed")\<close>
  \<^item> \<open>RemainedRead i d\<close>: \<^verbatim>\<open>mock socket scenario %d - there is remained data to read: %s\<close>
  \<^item> \<open>RemainedWrite i d\<close>: \<^verbatim>\<open>mock socket scenario %d - there is remained data to write: %s\<close>
  \<^item> \<open>Unconsumed k n\<close>: \<^verbatim>\<open>Unconsumed senario exists - %d/%d\<close>
  \<^item> \<open>ShouldCloseButRead i\<close>: \<^verbatim>\<open>socket scenario %d - should close, but Read() is called\<close>
    (\<^verbatim>\<open>Read\<close> uses this one message on a write action and on a close action)
  \<^item> \<open>ShouldReadButWrite i\<close>: \<^verbatim>\<open>socket scenario %d - should read data, but Write() is called\<close>
  \<^item> \<open>WriteMismatch i expected actual\<close>: \<^verbatim>\<open>socket scenario %d - Write() expected=%s actual=%s\<close>
  \<^item> \<open>ShouldCloseButWrite i\<close>: \<^verbatim>\<open>socket scenario %d - should close, but Write() is called\<close>
  \<^item> \<open>ShouldReadButClose i\<close>: \<^verbatim>\<open>socket scenario %d - should read data, but Close() is called\<close>
  \<^item> \<open>ShouldWriteButClose i\<close>: \<^verbatim>\<open>socket scenario %d - should write data, but Close() is called\<close>
\<close>

datatype error =
    AlreadyClosed
  | RemainedRead nat bytes
  | RemainedWrite nat bytes
  | Unconsumed nat nat
  | ShouldCloseButRead nat
  | ShouldReadButWrite nat
  | WriteMismatch nat bytes bytes
  | ShouldCloseButWrite nat
  | ShouldReadButClose nat
  | ShouldWriteButClose nat

text \<open>\<open>IndexOutOfRange i n\<close>: the Go run-time panic of indexing a slice of length \<open>n\<close> at \<open>i\<close>.\<close>

datatype panic = IndexOutOfRange nat nat

datatype 'a outcome = Return 'a | Panic panic

subsection \<open>The connection\<close>

record Conn =
  errors :: "error list"
  scenario :: "Action list"
  current :: nat
  closed :: bool

definition New :: "Conn" where
  "New = \<lparr>errors = [], scenario = [], current = 0, closed = False\<rparr>"

definition SetExpectedActions :: "Conn \<Rightarrow> Action list \<Rightarrow> Conn" where
  "SetExpectedActions c sc = c\<lparr>scenario := sc\<rparr>"

definition getAction :: "Conn \<Rightarrow> nat \<Rightarrow> Action" where
  "getAction c i = (if i < length (scenario c) then scenario c ! i else nullAction)"

definition addError :: "Conn \<Rightarrow> error \<Rightarrow> error \<times> Conn" where
  "addError c e = (e, c\<lparr>errors := errors c @ [e]\<rparr>)"

subsection \<open>Read\<close>

text \<open>
  \<^verbatim>\<open>copy(b, read.data)\<close> overwrites the first \<open>n = min (len b) (len data)\<close> bytes of the
  buffer; the buffer after the call is the second component of the result. On a write
  action with no data left the method increments the cursor and then indexes the
  scenario directly, which panics when the cursor has reached the length; otherwise it
  leaves the switch and returns \<open>(0, nil)\<close>.
\<close>

function Conn_Read :: "Conn \<Rightarrow> bytes \<Rightarrow> (nat \<times> error option) outcome \<times> bytes \<times> Conn" where
  "Conn_Read c b =
    (if closed c then (Return (0, Some AlreadyClosed), b, c)
     else case getAction c (current c) of
       readAction rdata orig \<Rightarrow>
         if length rdata > 0 then
           let n = min (length b) (length rdata) in
           (Return (n, None), take n rdata @ drop n b,
            c\<lparr>scenario := (scenario c)[current c := readAction (drop n rdata) orig]\<rparr>)
         else if Type (getAction c (current c + 1)) = ReadActionType then
           Conn_Read (c\<lparr>current := current c + 1\<rparr>) b
         else (Return (0, None), b, c)
     | writeAction wdata orig \<Rightarrow>
         if length wdata = 0 then
           let c' = c\<lparr>current := current c + 1\<rparr> in
           if current c' < length (scenario c') then (Return (0, None), b, c')
           else (Panic (IndexOutOfRange (current c') (length (scenario c'))), b, c')
         else
           let (e, c') = addError c (ShouldCloseButRead (current c + 1)) in
           (Return (0, Some e), b, c')
     | closeAction \<Rightarrow>
         let (e, c') = addError c (ShouldCloseButRead (current c + 1)) in
         (Return (0, Some e), b, c')
     | nullAction \<Rightarrow> (Return (0, None), b, c))"
  by pat_completeness auto
termination
proof (relation "measure (\<lambda>(c, b). length (scenario c) - current c)")
  show "wf (measure (\<lambda>(c, b). length (scenario c) - current c))" by simp
next
  fix c :: Conn and b :: bytes and rdata orig
  assume "getAction c (current c) = readAction rdata orig"
  then have "current c < length (scenario c)"
    by (auto simp: getAction_def split: if_splits)
  then show "((c\<lparr>current := current c + 1\<rparr>, b), (c, b))
      \<in> measure (\<lambda>(c, b). length (scenario c) - current c)"
    by simp
qed

declare Conn_Read.simps [simp del]

subsection \<open>Write\<close>

text \<open>
  The comparison loop of \<^verbatim>\<open>Write\<close>: \<^verbatim>\<open>same\<close> stays true when every byte of \<open>b\<close> equals the
  byte of \<open>data\<close> at the same index. It runs only under \<open>len(b) <= len(data)\<close>.
\<close>

definition same :: "bytes \<Rightarrow> bytes \<Rightarrow> bool" where
  "same b wdata = list_all (\<lambda>i. b ! i = wdata ! i) [0..<length b]"

function Conn_Write :: "Conn \<Rightarrow> bytes \<Rightarrow> (nat \<times> error option) \<times> Conn" where
  "Conn_Write c b =
    (if closed c then ((0, Some AlreadyClosed), c)
     else case getAction c (current c) of
       readAction rdata orig \<Rightarrow>
         if length rdata > 0 then
           let (e, c') = addError c (ShouldReadButWrite (current c + 1)) in ((0, Some e), c')
         else Conn_Write (c\<lparr>current := current c + 1\<rparr>) b
     | writeAction wdata orig \<Rightarrow>
         if length b \<le> length wdata then
           if \<not> same b wdata then
             let (e, c') = addError c (WriteMismatch (current c + 1) wdata b) in ((0, Some e), c')
           else if length b = length wdata then
             ((length b, None), c\<lparr>current := current c + 1\<rparr>)
           else
             ((length b, None),
              c\<lparr>scenario := (scenario c)[current c := writeAction (drop (length b) wdata) orig]\<rparr>)
         else
           let (e, c') = addError c (WriteMismatch (current c + 1) wdata b) in ((0, Some e), c')
     | closeAction \<Rightarrow>
         let (e, c') = addError c (ShouldCloseButWrite (current c + 1)) in ((0, Some e), c')
     | nullAction \<Rightarrow> ((0, None), c))"
  by pat_completeness auto
termination
proof (relation "measure (\<lambda>(c, b). length (scenario c) - current c)")
  show "wf (measure (\<lambda>(c, b). length (scenario c) - current c))" by simp
next
  fix c :: Conn and b :: bytes and rdata orig
  assume "getAction c (current c) = readAction rdata orig"
  then have "current c < length (scenario c)"
    by (auto simp: getAction_def split: if_splits)
  then show "((c\<lparr>current := current c + 1\<rparr>, b), (c, b))
      \<in> measure (\<lambda>(c, b). length (scenario c) - current c)"
    by simp
qed

declare Conn_Write.simps [simp del]

subsection \<open>Close\<close>

function Conn_Close :: "Conn \<Rightarrow> error option \<times> Conn" where
  "Conn_Close c =
    (if closed c then (Some AlreadyClosed, c)
     else case getAction c (current c) of
       readAction rdata orig \<Rightarrow>
         if length rdata > 0 then
           let (e, c') = addError c (ShouldReadButClose (current c + 1)) in (Some e, c')
         else Conn_Close (c\<lparr>current := current c + 1\<rparr>)
     | writeAction wdata orig \<Rightarrow>
         let (e, c') = addError c (ShouldWriteButClose (current c + 1)) in (Some e, c')
     | closeAction \<Rightarrow> (None, c\<lparr>current := current c + 1, closed := True\<rparr>)
     | nullAction \<Rightarrow> (None, c\<lparr>closed := True\<rparr>))"
  by pat_completeness auto
termination
proof (relation "measure (\<lambda>c. length (scenario c) - current c)")
  show "wf (measure (\<lambda>c. length (scenario c) - current c))" by simp
next
  fix c :: Conn and rdata orig
  assume "getAction c (current c) = readAction rdata orig"
  then have "current c < length (scenario c)"
    by (auto simp: getAction_def split: if_splits)
  then show "(c\<lparr>current := current c + 1\<rparr>, c) \<in> measure (\<lambda>c. length (scenario c) - current c)"
    by simp
qed

declare Conn_Close.simps [simp del]

subsection \<open>Verify\<close>

text \<open>
  \<^verbatim>\<open>Verify\<close> copies the error list, appends the diagnostics of the action at the cursor
  (incrementing the cursor on a read or write action), appends the count of unconsumed
  actions when the cursor is still inside the scenario, returns the list so built and
  stores the copy back.
\<close>

definition Conn_Verify :: "Conn \<Rightarrow> error list \<times> Conn" where
  "Conn_Verify c =
    (let errors0 = errors c;
         c1 = (case getAction c (current c) of
                 readAction rdata orig \<Rightarrow>
                   let c' = (if length rdata > 0
                             then snd (addError c (RemainedRead (current c + 1) rdata))
                             else c)
                   in c'\<lparr>current := current c' + 1\<rparr>
               | writeAction wdata orig \<Rightarrow>
                   let c' = snd (addError c (RemainedWrite (current c + 1) wdata))
                   in c'\<lparr>current := current c' + 1\<rparr>
               | closeAction \<Rightarrow> c
               | nullAction \<Rightarrow> c);
         c2 = (if current c1 < length (scenario c1)
               then snd (addError c1
                      (Unconsumed (length (scenario c1) - current c1) (length (scenario c1))))
               else c1);
         result = errors c2
     in (result, c2\<lparr>errors := errors0\<rparr>))"

subsection \<open>A client's calls\<close>

text \<open>
  Code under test calls the three methods one after another on one connection.
  \<open>perform\<close> is one such call with what it returns (for \<^verbatim>\<open>Read\<close>: the outcome and the
  buffer after the call); \<open>perform_all\<close> makes the calls of a list in order, each on the
  connection the previous one left. \<open>already_closed\<close> is what a call returns on a closed
  connection.
\<close>

datatype call = ReadCall bytes | WriteCall bytes | CloseCall

datatype reply =
    ReadReply "(nat \<times> error option) outcome" bytes
  | WriteReply nat "error option"
  | CloseReply "error option"

fun perform :: "Conn \<Rightarrow> call \<Rightarrow> reply \<times> Conn" where
  "perform c (ReadCall b) = (case Conn_Read c b of (r, b', c') \<Rightarrow> (ReadReply r b', c'))"
| "perform c (WriteCall b) = (case Conn_Write c b of ((n, e), c') \<Rightarrow> (WriteReply n e, c'))"
| "perform c CloseCall = (case Conn_Close c of (e, c') \<Rightarrow> (CloseReply e, c'))"

fun perform_all :: "Conn \<Rightarrow> call list \<Rightarrow> reply list \<times> Conn" where
  "perform_all c [] = ([], c)"
| "perform_all c (x # xs) =
     (case perform c x of (r, c') \<Rightarrow>
        (case perform_all c' xs of (rs, c'') \<Rightarrow> (r # rs, c'')))"

fun already_closed :: "call \<Rightarrow> reply" where
  "already_closed (ReadCall b) = ReadReply (Return (0, Some AlreadyClosed)) b"
| "already_closed (WriteCall b) = WriteReply 0 (Some AlreadyClosed)"
| "already_closed CloseCall = CloseReply (Some AlreadyClosed)"

text \<open>
  What a call of \<^verbatim>\<open>Verify\<close> is expected to add and where it leaves the cursor, written
  from the scenario and a cursor position alone. \<open>remained_error c\<close> is the remained-data
  error for the action at the cursor of \<open>c\<close>: none for a read action with no data left,
  a close action or a cursor past the end. \<open>Verify_cursor c\<close> is the cursor one past a
  read or write action at the cursor, and the cursor itself otherwise.
  \<open>unconsumed_error c k\<close> is the unconsumed-scenario error counted from position \<open>k\<close>,
  none when \<open>k\<close> is not inside the scenario.
\<close>

definition remained_error :: "Conn \<Rightarrow> error list" where
  "remained_error c =
    (case getAction c (current c) of
       readAction d orig \<Rightarrow> if d = [] then [] else [RemainedRead (current c + 1) d]
     | writeAction d orig \<Rightarrow> [RemainedWrite (current c + 1) d]
     | closeAction \<Rightarrow> []
     | nullAction \<Rightarrow> [])"

definition Verify_cursor :: "Conn \<Rightarrow> nat" where
  "Verify_cursor c =
    (case getAction c (current c) of
       readAction d orig \<Rightarrow> current c + 1
     | writeAction d orig \<Rightarrow> current c + 1
     | closeAction \<Rightarrow> current c
     | nullAction \<Rightarrow> current c)"

definition unconsumed_error :: "Conn \<Rightarrow> nat \<Rightarrow> error list" where
  "unconsumed_error c k =
    (if k < length (scenario c)
     then [Unconsumed (length (scenario c) - k) (length (scenario c))] else [])"

text \<open>
  For a scenario of read actions only (\<open>only_reads\<close>): \<open>pending\<close> is the data still to be
  delivered, the remaining data of the actions from the cursor on, in scenario order.
  \<open>delivered\<close> is what a \<^verbatim>\<open>Read\<close> call handed to its caller, the first \<open>n\<close> bytes of the
  buffer; \<open>no_failure\<close> holds of a reply with a \<open>nil\<close> error.
\<close>

fun remaining :: "Action \<Rightarrow> bytes" where
  "remaining (readAction d orig) = d"
| "remaining (writeAction d orig) = d"
| "remaining closeAction = []"
| "remaining nullAction = []"

definition pending :: "Conn \<Rightarrow> bytes" where
  "pending c = concat (map remaining (drop (current c) (scenario c)))"

fun delivered :: "reply \<Rightarrow> bytes" where
  "delivered (ReadReply (Return (n, e)) b') = take n b'"
| "delivered r = []"

fun no_failure :: "reply \<Rightarrow> bool" where
  "no_failure (ReadReply (Return (n, e)) b') = (e = None)"
| "no_failure (ReadReply (Panic p) b') = False"
| "no_failure (WriteReply n e) = (e = None)"
| "no_failure (CloseReply e) = (e = None)"

definition only_reads :: "Conn \<Rightarrow> bool" where
  "only_reads c = list_all (\<lambda>a. Type a = ReadActionType) (scenario c)"

text \<open>
  When a call may move the cursor past an action: \<open>discharged x a\<close> holds when the
  obligation of action \<open>a\<close> is met for the call \<open>x\<close>. A read action is discharged when
  it has no data left; a write action when it has no data left or the call is the
  \<^verbatim>\<open>Write\<close> of exactly its remaining data; a close action by a \<^verbatim>\<open>Close\<close> call.
\<close>

fun discharged :: "call \<Rightarrow> Action \<Rightarrow> bool" where
  "discharged x (readAction d orig) = (d = [])"
| "discharged x (writeAction d orig) = (d = [] \<or> x = WriteCall d)"
| "discharged x closeAction = (x = CloseCall)"
| "discharged x nullAction = False"

section \<open>Properties\<close>

lemmas conn_defs =
  getAction_def addError_def New_def SetExpectedActions_def Read_def Write_def Close_def
  same_def

subsection \<open>Basic facts\<close>

lemma getAction_errors [simp]: "getAction (c\<lparr>errors := es\<rparr>) i = getAction c i"
  by (simp add: getAction_def)

lemma getAction_current [simp]: "getAction (c\<lparr>current := k\<rparr>) i = getAction c i"
  by (simp add: getAction_def)

lemma getAction_closed [simp]: "getAction (c\<lparr>closed := k\<rparr>) i = getAction c i"
  by (simp add: getAction_def)

lemma getAction_in_range:
  "getAction c i = readAction d orig \<or> getAction c i = writeAction d orig
     \<or> getAction c i = closeAction \<Longrightarrow> i < length (scenario c)"
  by (auto simp: getAction_def split: if_splits)

lemma getAction_nth: "i < length (scenario c) \<Longrightarrow> getAction c i = scenario c ! i"
  by (simp add: getAction_def)

lemma same_iff: "same b wdata \<longleftrightarrow> (\<forall>i<length b. b ! i = wdata ! i)"
  by (auto simp: same_def list_all_iff)

lemma same_refl: "same d d"
  by (simp add: same_iff)

subsection \<open>The mismatch scenario of the package example\<close>

text \<open>
  C1. Scenario \<open>[Write "hello!!", Close]\<close>: writing the 14 bytes \<open>"good morning!!"\<close> fails
  with the mismatch error (expected \<open>"hello!!"\<close>, actual \<open>"good morning!!"\<close>), appends it and
  leaves the cursor at 0. \<^verbatim>\<open>Verify\<close> then returns three errors: the mismatch, the
  remained-data-to-write error for \<open>"hello!!"\<close>, and the unconsumed-scenario error. The
  specification and the expected output of \<^verbatim>\<open>ExampleConn_Verify\<close> give the last one as
  2/2; the code has already incremented the cursor for the write action when it counts,
  and reports 1/2.
\<close>

theorem C1_mismatch_then_Verify:
  "Conn_Write (SetExpectedActions New [Write ''hello!!'', Close]) ''good morning!!'' =
     ((0, Some (WriteMismatch 1 ''hello!!'' ''good morning!!'')),
      \<lparr>errors = [WriteMismatch 1 ''hello!!'' ''good morning!!''],
       scenario = [writeAction ''hello!!'' ''hello!!'', closeAction],
       current = 0, closed = False\<rparr>)
   \<and> fst (Conn_Verify (snd (Conn_Write (SetExpectedActions New [Write ''hello!!'', Close])
                                      ''good morning!!''))) =
     [WriteMismatch 1 ''hello!!'' ''good morning!!'', RemainedWrite 1 ''hello!!'',
      Unconsumed 1 2]"
  by (simp add: Conn_Write.simps Conn_Verify_def conn_defs)

subsection \<open>Read on a write action with no data left\<close>

text \<open>
  C2. The specification has it that on a write action with empty data \<^verbatim>\<open>Read\<close> advances
  the cursor and retries against the following action, so that the bytes of a following
  read action are delivered by the same call. The code advances the cursor, assigns the
  next action to a local variable, leaves the switch and returns \<open>(0, nil)\<close>: on
  \<open>[Write "", Read "abc"]\<close> nothing is copied into the buffer and \<open>"abc"\<close> is still
  pending; only a second call delivers it.
\<close>

theorem C2_Read_empty_write_no_retry:
  "Conn_Read (SetExpectedActions New [Write [], Read ''abc'']) ''........'' =
     (Return (0, None), ''........'',
      \<lparr>errors = [], scenario = [writeAction [] [], readAction ''abc'' ''abc''],
       current = 1, closed = False\<rparr>)
   \<and> Conn_Read \<lparr>errors = [], scenario = [writeAction [] [], readAction ''abc'' ''abc''],
                current = 1, closed = False\<rparr> ''........'' =
     (Return (3, None), ''abc.....'',
      \<lparr>errors = [], scenario = [writeAction [] [], readAction [] ''abc''],
       current = 1, closed = False\<rparr>)"
  by (simp add: Conn_Read.simps conn_defs)

text \<open>
  C10. Expected: \<^verbatim>\<open>Read\<close> returns a result for every scenario and buffer, also when the
  action at the cursor is a write action with empty data that is the last of the
  scenario. There the code increments the cursor to the scenario length and indexes
  \<^verbatim>\<open>c.scenario[c.current]\<close>: an index-out-of-range panic, for every buffer.
\<close>

theorem C10_Read_last_empty_write_panics:
  "Conn_Read (SetExpectedActions New [Write []]) b =
     (Panic (IndexOutOfRange 1 1), b,
      \<lparr>errors = [], scenario = [writeAction [] []], current = 1, closed = False\<rparr>)"
  by (simp add: Conn_Read.simps conn_defs)

subsection \<open>Read on a read action with data left\<close>

text \<open>
  C8. When the action at the cursor is a read action with non-empty data, \<^verbatim>\<open>Read\<close> with a
  buffer \<open>b\<close> copies \<open>n = min (len b) (len data)\<close> bytes from the front of the data over the
  front of the buffer, drops those \<open>n\<close> bytes from the action's data, and returns \<open>n\<close>
  with no error. The cursor stays where it is, also when the data has become empty.
\<close>

theorem C8_Read_copies_front:
  assumes "\<not> closed c" and "getAction c (current c) = readAction rdata orig" and "rdata \<noteq> []"
  shows "Conn_Read c b =
           (Return (min (length b) (length rdata), None),
            take (min (length b) (length rdata)) rdata @ drop (min (length b) (length rdata)) b,
            c\<lparr>scenario := (scenario c)[current c :=
                 readAction (drop (min (length b) (length rdata)) rdata) orig]\<rparr>)
         \<and> current (snd (snd (Conn_Read c b))) = current c
         \<and> getAction (snd (snd (Conn_Read c b))) (current c) =
             readAction (drop (min (length b) (length rdata)) rdata) orig"
proof -
  have inr: "current c < length (scenario c)"
    using assms(2) getAction_in_range by blast
  have eq: "Conn_Read c b =
           (Return (min (length b) (length rdata), None),
            take (min (length b) (length rdata)) rdata @ drop (min (length b) (length rdata)) b,
            c\<lparr>scenario := (scenario c)[current c :=
                 readAction (drop (min (length b) (length rdata)) rdata) orig]\<rparr>)"
    using assms by (subst Conn_Read.simps) (simp add: Let_def)
  show ?thesis using inr by (simp add: eq getAction_def)
qed

text \<open>
  The first read of \<^verbatim>\<open>TestReadCloseScenario\<close>, with a 16-byte buffer: all 11 bytes are
  delivered, the data is empty afterwards and the cursor is still 0.
\<close>

theorem C8_Read_copies_front_witness:
  "\<not> closed (SetExpectedActions New [Read ''hello world'', Close])
   \<and> getAction (SetExpectedActions New [Read ''hello world'', Close]) 0 =
       readAction ''hello world'' ''hello world''
   \<and> Conn_Read (SetExpectedActions New [Read ''hello world'', Close]) ''................'' =
       (Return (11, None), ''hello world.....'',
        \<lparr>errors = [], scenario = [readAction [] ''hello world'', closeAction],
         current = 0, closed = False\<rparr>)"
  using C8_Read_copies_front [of "SetExpectedActions New [Read ''hello world'', Close]"
      "''hello world''" "''hello world''" "''................''"]
  by (simp add: conn_defs)

subsection \<open>Write with bytes that do not match\<close>

text \<open>
  C5. When the action at the cursor is a write action and the submitted bytes are longer
  than its remaining data or differ from it at some position, \<^verbatim>\<open>Write\<close> returns 0 with the
  mismatch error carrying the expected remaining data and the submitted bytes, and the
  connection afterwards is the one before with exactly that error appended: cursor,
  scenario (so the remaining data) and closed flag are unchanged. Writing the full
  remaining data next succeeds: it returns its length with no error, appends nothing and
  advances the cursor.
\<close>

theorem C5_Write_mismatch:
  assumes "\<not> closed c" and "getAction c (current c) = writeAction wdata orig"
    and "length wdata < length b \<or> (\<exists>i. i < length b \<and> i < length wdata \<and> b ! i \<noteq> wdata ! i)"
  shows "Conn_Write c b =
           ((0, Some (WriteMismatch (current c + 1) wdata b)),
            c\<lparr>errors := errors c @ [WriteMismatch (current c + 1) wdata b]\<rparr>)
         \<and> Conn_Write (c\<lparr>errors := errors c @ [WriteMismatch (current c + 1) wdata b]\<rparr>) wdata =
           ((length wdata, None),
            c\<lparr>errors := errors c @ [WriteMismatch (current c + 1) wdata b],
              current := current c + 1\<rparr>)"
proof -
  let ?c' = "c\<lparr>errors := errors c @ [WriteMismatch (current c + 1) wdata b]\<rparr>"
  have bad: "length b \<le> length wdata \<Longrightarrow> \<not> same b wdata"
    using assms(3) by (auto simp: same_iff)
  have first: "Conn_Write c b = ((0, Some (WriteMismatch (current c + 1) wdata b)), ?c')"
    using assms(1,2) bad by (subst Conn_Write.simps) (simp add: addError_def)
  have get': "getAction ?c' (current ?c') = writeAction wdata orig"
    using assms(2) by simp
  have second: "Conn_Write ?c' wdata = ((length wdata, None), ?c'\<lparr>current := current c + 1\<rparr>)"
    using assms(1) get' by (subst Conn_Write.simps) (simp add: same_refl)
  show ?thesis using first second by simp
qed

text \<open>\<open>"help"\<close> against \<open>"hello!!"\<close> differs at index 3; \<open>"hello!!"\<close> is accepted afterwards.\<close>

theorem C5_Write_mismatch_witness:
  "\<not> closed (SetExpectedActions New [Write ''hello!!'', Close])
   \<and> ''help'' ! 3 \<noteq> ''hello!!'' ! 3
   \<and> Conn_Write (SetExpectedActions New [Write ''hello!!'', Close]) ''help'' =
       ((0, Some (WriteMismatch 1 ''hello!!'' ''help'')),
        \<lparr>errors = [WriteMismatch 1 ''hello!!'' ''help''],
         scenario = [writeAction ''hello!!'' ''hello!!'', closeAction],
         current = 0, closed = False\<rparr>)
   \<and> Conn_Write \<lparr>errors = [WriteMismatch 1 ''hello!!'' ''help''],
         scenario = [writeAction ''hello!!'' ''hello!!'', closeAction],
         current = 0, closed = False\<rparr> ''hello!!'' =
       ((7, None),
        \<lparr>errors = [WriteMismatch 1 ''hello!!'' ''help''],
         scenario = [writeAction ''hello!!'' ''hello!!'', closeAction],
         current = 1, closed = False\<rparr>)"
proof -
  let ?c = "SetExpectedActions New [Write ''hello!!'', Close]"
  have h1: "\<not> closed ?c" by (simp add: conn_defs)
  have h2: "getAction ?c (current ?c) = writeAction ''hello!!'' ''hello!!''"
    by (simp add: conn_defs)
  have d: "''help'' ! 3 \<noteq> ''hello!!'' ! 3" by simp
  have h3: "length ''hello!!'' < length ''help''
      \<or> (\<exists>i. i < length ''help'' \<and> i < length ''hello!!'' \<and> ''help'' ! i \<noteq> ''hello!!'' ! i)"
    by (rule disjI2, rule exI [of _ 3]) simp
  show ?thesis
    using C5_Write_mismatch [OF h1 h2 h3] h1 d by (simp add: conn_defs)
qed

subsection \<open>Calls after a successful Close\<close>

lemma perform_closed: "closed c \<Longrightarrow> perform c x = (already_closed x, c)"
  by (cases x) (simp_all add: Conn_Read.simps Conn_Write.simps Conn_Close.simps)

lemma perform_all_closed: "closed c \<Longrightarrow> perform_all c xs = (map already_closed xs, c)"
  by (induction xs) (simp_all add: perform_closed)

lemma Close_success_closed: "Conn_Close c0 = (None, c) \<Longrightarrow> closed c"
proof (induction c0 rule: Conn_Close.induct)
  case (1 c0)
  show ?case
  proof (cases "closed c0")
    case True
    with "1.prems" show ?thesis by (simp add: Conn_Close.simps)
  next
    case False
    show ?thesis
    proof (cases "getAction c0 (current c0)")
      case (readAction rdata orig)
      show ?thesis
      proof (cases "rdata = []")
        case True
        have "Conn_Close c0 = Conn_Close (c0\<lparr>current := current c0 + 1\<rparr>)"
          using False readAction True by (subst Conn_Close.simps) simp
        with "1.prems" "1.IH" [OF False readAction] True show ?thesis by simp
      next
        case nonempty: False
        with "1.prems" False readAction show ?thesis
          by (simp add: Conn_Close.simps addError_def)
      qed
    next
      case (writeAction wdata orig)
      with "1.prems" False show ?thesis by (simp add: Conn_Close.simps addError_def)
    next
      case closeAction
      with "1.prems" False show ?thesis by (auto simp: Conn_Close.simps)
    next
      case nullAction
      with "1.prems" False show ?thesis by (auto simp: Conn_Close.simps)
    qed
  qed
qed

text \<open>
  C7. Once \<^verbatim>\<open>Close\<close> has returned no error, the connection is closed, and every later
  call, in any number and order, returns the already-closed error (\<^verbatim>\<open>Read\<close> and
  \<^verbatim>\<open>Write\<close> with count 0, the buffer untouched) and leaves the connection as it was:
  cursor, scenario, closed flag and error list.
\<close>

theorem C7_after_Close_already_closed:
  assumes "Conn_Close c0 = (None, c)"
  shows "closed c \<and> perform_all c calls = (map already_closed calls, c)"
  using Close_success_closed [OF assms] by (simp add: perform_all_closed)

theorem C7_after_Close_already_closed_witness:
  "Conn_Close (SetExpectedActions New [Read [], Close]) =
     (None, \<lparr>errors = [], scenario = [readAction [] [], closeAction],
             current = 2, closed = True\<rparr>)
   \<and> perform_all \<lparr>errors = [], scenario = [readAction [] [], closeAction],
                  current = 2, closed = True\<rparr>
        [ReadCall ''....'', WriteCall ''abc'', CloseCall] =
      ([ReadReply (Return (0, Some AlreadyClosed)) ''....'', WriteReply 0 (Some AlreadyClosed),
        CloseReply (Some AlreadyClosed)],
       \<lparr>errors = [], scenario = [readAction [] [], closeAction], current = 2, closed = True\<rparr>)"
proof -
  have h: "Conn_Close (SetExpectedActions New [Read [], Close]) =
     (None, \<lparr>errors = [], scenario = [readAction [] [], closeAction],
             current = 2, closed = True\<rparr>)"
    by (simp add: Conn_Close.simps conn_defs)
  show ?thesis
    using C7_after_Close_already_closed
      [OF h, of "[ReadCall ''....'', WriteCall ''abc'', CloseCall]"] h
    by simp
qed

subsection \<open>Verify and the stored error list\<close>

lemma Verify_explicit:
  "Conn_Verify c =
     (errors c @ remained_error c @ unconsumed_error c (Verify_cursor c),
      c\<lparr>current := Verify_cursor c\<rparr>)"
  by (cases "getAction c (current c)")
    (simp_all add: Conn_Verify_def remained_error_def Verify_cursor_def unconsumed_error_def
      Let_def addError_def)

text \<open>
  C6. \<^verbatim>\<open>Verify\<close> returns the error list stored at entry, followed by the remained-data
  error of the action at the cursor (if it has one) and the unconsumed-scenario error
  counted from the cursor \<^verbatim>\<open>Verify\<close> leaves (if that is inside the scenario). On return
  the connection is the one at entry with only the cursor moved: the stored error list
  is the one at entry. A second call therefore returns that same stored list, without
  the errors the first call built, followed by the errors built for the action at the
  cursor the first call left.
\<close>

theorem C6_Verify_restores_baseline:
  "Conn_Verify c =
     (errors c @ remained_error c @ unconsumed_error c (Verify_cursor c),
      c\<lparr>current := Verify_cursor c\<rparr>)
   \<and> errors (snd (Conn_Verify c)) = errors c
   \<and> current (snd (Conn_Verify c)) = Verify_cursor c
   \<and> fst (Conn_Verify (snd (Conn_Verify c))) =
       errors c @ remained_error (c\<lparr>current := Verify_cursor c\<rparr>)
         @ unconsumed_error c (Verify_cursor (c\<lparr>current := Verify_cursor c\<rparr>))"
proof -
  have one: "Conn_Verify c =
     (errors c @ remained_error c @ unconsumed_error c (Verify_cursor c),
      c\<lparr>current := Verify_cursor c\<rparr>)"
    by (rule Verify_explicit)
  have uc: "unconsumed_error (c\<lparr>current := k\<rparr>) j = unconsumed_error c j" for k j
    by (simp add: unconsumed_error_def)
  have two: "fst (Conn_Verify (c\<lparr>current := Verify_cursor c\<rparr>)) =
       errors c @ remained_error (c\<lparr>current := Verify_cursor c\<rparr>)
         @ unconsumed_error c (Verify_cursor (c\<lparr>current := Verify_cursor c\<rparr>))"
    by (simp add: Verify_explicit uc)
  show ?thesis using two by (simp add: one)
qed

text \<open>
  After a \<^verbatim>\<open>Close\<close> that failed on \<open>[Read "hello world", Close]\<close>: the first \<^verbatim>\<open>Verify\<close> adds
  the remained-data error and the count 1/2; the second returns the stored error and the
  count 1/2 for the close action now at the cursor, and no remained-data error.
\<close>

lemma Verify_twice_example:
  "fst (Conn_Verify \<lparr>errors = [ShouldReadButClose 1],
          scenario = [readAction ''hello world'' ''hello world'', closeAction],
          current = 0, closed = False\<rparr>) =
     [ShouldReadButClose 1, RemainedRead 1 ''hello world'', Unconsumed 1 2]
   \<and> fst (Conn_Verify (snd (Conn_Verify \<lparr>errors = [ShouldReadButClose 1],
          scenario = [readAction ''hello world'' ''hello world'', closeAction],
          current = 0, closed = False\<rparr>))) =
     [ShouldReadButClose 1, Unconsumed 1 2]"
  by (simp add: Conn_Verify_def conn_defs)

subsection \<open>Write in chunks\<close>

lemma Write_full:
  assumes "\<not> closed c" and "getAction c (current c) = writeAction wdata orig"
  shows "Conn_Write c wdata = ((length wdata, None), c\<lparr>current := current c + 1\<rparr>)"
  using assms by (subst Conn_Write.simps) (simp add: same_refl)

lemma Write_partial:
  assumes "\<not> closed c" and "getAction c (current c) = writeAction (x @ r) orig" and "r \<noteq> []"
  shows "Conn_Write c x =
    ((length x, None), c\<lparr>scenario := (scenario c)[current c := writeAction r orig]\<rparr>)"
proof -
  have "same x (x @ r)" by (simp add: same_iff nth_append)
  then show ?thesis
    using assms by (subst Conn_Write.simps) simp
qed

text \<open>
  C4. A write action at the cursor with remaining data \<open>wdata\<close> (for a fresh action, its
  original bytes), and a client that submits chunks \<open>cs\<close> one call after another, every
  chunk a prefix of what then remains (so \<open>concat cs\<close> is a prefix of \<open>wdata\<close>), the calls
  being those up to the one that completes the data (no earlier call has already
  submitted all of it). Then every call returns its chunk's length with no error, no
  error is appended, and the cursor has moved past the action exactly when the chunks so
  far make up all of \<open>wdata\<close>; until then the cursor is unchanged and the action's data
  is \<open>wdata\<close> without the submitted bytes.
\<close>

theorem C4_Write_chunks:
  assumes "\<not> closed c" and "getAction c (current c) = writeAction wdata orig"
    and "prefix (concat cs) wdata"
    and "\<forall>k. 0 < k \<and> k < length cs \<longrightarrow> concat (take k cs) \<noteq> wdata"
  shows "fst (perform_all c (map WriteCall cs)) = map (\<lambda>ch. WriteReply (length ch) None) cs
       \<and> errors (snd (perform_all c (map WriteCall cs))) = errors c
       \<and> (if cs \<noteq> [] \<and> concat cs = wdata
          then current (snd (perform_all c (map WriteCall cs))) = current c + 1
          else current (snd (perform_all c (map WriteCall cs))) = current c
             \<and> getAction (snd (perform_all c (map WriteCall cs))) (current c) =
                 writeAction (drop (length (concat cs)) wdata) orig)"
  using assms
proof (induction cs arbitrary: c wdata)
  case Nil
  then show ?case by simp
next
  case (Cons x xs)
  from Cons.prems(3) obtain r where wd: "wdata = x @ r" and pre: "prefix (concat xs) r"
    by (auto simp: prefix_def)
  show ?case
  proof (cases "r = []")
    case True
    then have xw: "x = wdata" using wd by simp
    have "xs = []"
    proof (rule ccontr)
      assume "xs \<noteq> []"
      then have "0 < (1::nat) \<and> 1 < length (x # xs)" by (cases xs) simp_all
      with Cons.prems(4) have "concat (take 1 (x # xs)) \<noteq> wdata" by blast
      then show False using xw by simp
    qed
    then show ?thesis
      using Write_full [OF Cons.prems(1,2)] xw by simp
  next
    case False
    let ?c' = "c\<lparr>scenario := (scenario c)[current c := writeAction r orig]\<rparr>"
    have step: "Conn_Write c x = ((length x, None), ?c')"
      using Write_partial [of c x r orig] Cons.prems(1,2) wd False by simp
    have inr: "current c < length (scenario c)"
      using Cons.prems(2) getAction_in_range by blast
    have c'1: "\<not> closed ?c'" using Cons.prems(1) by simp
    have c'2: "getAction ?c' (current ?c') = writeAction r orig"
      using inr by (simp add: getAction_def)
    have c'4: "\<forall>k. 0 < k \<and> k < length xs \<longrightarrow> concat (take k xs) \<noteq> r"
    proof (intro allI impI)
      fix k assume k: "0 < k \<and> k < length xs"
      then have "0 < Suc k \<and> Suc k < length (x # xs)" by simp
      with Cons.prems(4) have "concat (take (Suc k) (x # xs)) \<noteq> wdata" by blast
      then show "concat (take k xs) \<noteq> r" using wd by simp
    qed
    define R where "R = perform_all ?c' (map WriteCall xs)"
    have cur: "current ?c' = current c" by simp
    have er: "errors ?c' = errors c" by simp
    note IH = Cons.IH [OF c'1 c'2 pre c'4, folded R_def, unfolded cur er]
    have pa: "perform_all c (map WriteCall (x # xs)) = (WriteReply (length x) None # fst R, snd R)"
      using step by (simp add: R_def split_beta)
    have iff: "(x # xs \<noteq> [] \<and> concat (x # xs) = wdata) \<longleftrightarrow> (xs \<noteq> [] \<and> concat xs = r)"
      using wd False by auto
    have dr: "drop (length (concat (x # xs))) wdata = drop (length (concat xs)) r"
      using wd by simp
    show ?thesis
      unfolding pa iff dr using IH by simp
  qed
qed


text \<open>The two writes of \<^verbatim>\<open>TestWriteCloseScenario\<close>, and the state after the first.\<close>

theorem C4_Write_chunks_witness:
  "\<not> closed (SetExpectedActions New [Write ''helloworld'', Close])
   \<and> concat [''hello'', ''world''] = ''helloworld''
   \<and> concat (take 1 [''hello'', ''world'']) \<noteq> ''helloworld''
   \<and> perform_all (SetExpectedActions New [Write ''helloworld'', Close])
        [WriteCall ''hello'', WriteCall ''world''] =
       ([WriteReply 5 None, WriteReply 5 None],
        \<lparr>errors = [], scenario = [writeAction ''world'' ''helloworld'', closeAction],
         current = 1, closed = False\<rparr>)
   \<and> current (snd (perform_all (SetExpectedActions New [Write ''helloworld'', Close])
        [WriteCall ''hello''])) = 0"
proof -
  let ?c = "SetExpectedActions New [Write ''helloworld'', Close]"
  have h1: "\<not> closed ?c" by (simp add: conn_defs)
  have h2: "getAction ?c (current ?c) = writeAction ''helloworld'' ''helloworld''"
    by (simp add: conn_defs)
  have h3: "prefix (concat [''hello'', ''world'']) ''helloworld''" by simp
  have h3': "prefix (concat [''hello'']) ''helloworld''" by simp
  have h4: "\<forall>k. 0 < k \<and> k < length [''hello'', ''world'']
      \<longrightarrow> concat (take k [''hello'', ''world'']) \<noteq> ''helloworld''"
    by (auto simp: less_Suc_eq)
  have h4': "\<forall>k. 0 < k \<and> k < length [''hello'']
      \<longrightarrow> concat (take k [''hello'']) \<noteq> ''helloworld''"
    by simp
  show ?thesis
    using C4_Write_chunks [OF h1 h2 h3 h4] C4_Write_chunks [OF h1 h2 h3' h4'] h1
    by (simp add: conn_defs Conn_Write.simps)
qed

subsection \<open>Read over adjacent read actions\<close>

lemma Read_retry:
  assumes "\<not> closed c" and "getAction c (current c) = readAction [] orig"
    and "Type (getAction c (current c + 1)) = ReadActionType"
  shows "Conn_Read c b = Conn_Read (c\<lparr>current := current c + 1\<rparr>) b"
  using assms by (subst Conn_Read.simps) simp

lemma Read_no_data:
  assumes "\<not> closed c" and "getAction c (current c) = readAction [] orig"
    and "Type (getAction c (current c + 1)) \<noteq> ReadActionType"
  shows "Conn_Read c b = (Return (0, None), b, c)"
  using assms by (subst Conn_Read.simps) simp

lemma Read_past_end:
  assumes "\<not> closed c" and "getAction c (current c) = nullAction"
  shows "Conn_Read c b = (Return (0, None), b, c)"
  using assms by (subst Conn_Read.simps) simp

lemma Read_data:
  assumes "\<not> closed c" and "getAction c (current c) = readAction rdata orig" and "rdata \<noteq> []"
  shows "Conn_Read c b =
           (Return (min (length b) (length rdata), None),
            take (min (length b) (length rdata)) rdata @ drop (min (length b) (length rdata)) b,
            c\<lparr>scenario := (scenario c)[current c :=
                 readAction (drop (min (length b) (length rdata)) rdata) orig]\<rparr>)"
  using assms by (subst Conn_Read.simps) (simp add: Let_def)

lemma pending_past_end: "length (scenario c) \<le> current c \<Longrightarrow> pending c = []"
  by (simp add: pending_def)

lemma pending_at:
  "current c < length (scenario c) \<Longrightarrow>
   pending c = remaining (scenario c ! current c) @ pending (c\<lparr>current := current c + 1\<rparr>)"
  by (simp add: pending_def Cons_nth_drop_Suc [symmetric])

lemma pending_update:
  "current c < length (scenario c) \<Longrightarrow>
   pending (c\<lparr>scenario := (scenario c)[current c := a]\<rparr>) =
     remaining a @ pending (c\<lparr>current := current c + 1\<rparr>)"
  by (simp add: pending_def Cons_nth_drop_Suc [symmetric] drop_update_cancel)

lemma only_reads_getAction:
  "only_reads c \<Longrightarrow> Type (getAction c i) = ReadActionType \<or> getAction c i = nullAction"
  by (auto simp: only_reads_def getAction_def list_all_length)

lemma only_reads_update:
  "only_reads c \<Longrightarrow> only_reads (c\<lparr>scenario := (scenario c)[i := readAction d orig]\<rparr>)"
  by (auto simp: only_reads_def list_all_iff dest!: subsetD [OF set_update_subset_insert])

lemma only_reads_null:
  assumes "only_reads c" and "getAction c i = nullAction"
  shows "length (scenario c) \<le> i"
proof (rule ccontr)
  assume "\<not> length (scenario c) \<le> i"
  then have i: "i < length (scenario c)" by simp
  then have "Type (scenario c ! i) = ReadActionType"
    using assms(1) by (simp add: only_reads_def list_all_length)
  moreover have "scenario c ! i = nullAction"
    using assms(2) i by (simp add: getAction_def)
  ultimately show False by simp
qed

lemma only_reads_current [simp]: "only_reads (c\<lparr>current := k\<rparr>) = only_reads c"
  by (simp add: only_reads_def)

lemma Read_only_reads:
  assumes "\<not> closed c" and "only_reads c"
  shows "\<exists>n c'. Conn_Read c b = (Return (n, None), take n (pending c) @ drop n b, c')
           \<and> n \<le> length b \<and> n \<le> length (pending c)
           \<and> (b \<noteq> [] \<and> pending c \<noteq> [] \<longrightarrow> 0 < n)
           \<and> pending c' = drop n (pending c)
           \<and> errors c' = errors c \<and> \<not> closed c' \<and> only_reads c'"
  using assms
proof (induction c b rule: Conn_Read.induct)
  case (1 c b)
  note nc = \<open>\<not> closed c\<close> and orc = \<open>only_reads c\<close>
  from only_reads_getAction [OF orc, of "current c"]
  consider (rd) rdata orig where "getAction c (current c) = readAction rdata orig"
    | (null) "getAction c (current c) = nullAction"
    by (cases "getAction c (current c)") auto
  then show ?case
  proof cases
    case null
    then have "length (scenario c) \<le> current c"
      using orc only_reads_null by blast
    then have p: "pending c = []" by (rule pending_past_end)
    show ?thesis
      using Read_past_end [OF nc null, of b] p nc orc by simp
  next
    case rd
    then have inr: "current c < length (scenario c)"
      using getAction_in_range by blast
    then have nth: "scenario c ! current c = readAction rdata orig"
      using rd by (simp add: getAction_def)
    show ?thesis
    proof (cases "rdata = []")
      case False
      let ?n = "min (length b) (length rdata)"
      let ?c' = "c\<lparr>scenario := (scenario c)[current c := readAction (drop ?n rdata) orig]\<rparr>"
      have p: "pending c = rdata @ pending (c\<lparr>current := current c + 1\<rparr>)"
        using pending_at [OF inr] nth by simp
      have p': "pending ?c' = drop ?n rdata @ pending (c\<lparr>current := current c + 1\<rparr>)"
        using pending_update [OF inr] by simp
      have "Conn_Read c b = (Return (?n, None), take ?n (pending c) @ drop ?n b, ?c')"
        using Read_data [OF nc rd False, of b] p by simp
      moreover have "?n \<le> length b" "?n \<le> length (pending c)" using p by simp_all
      moreover have "b \<noteq> [] \<and> pending c \<noteq> [] \<longrightarrow> 0 < ?n" using False by simp
      moreover have "pending ?c' = drop ?n (pending c)" using p p' by simp
      moreover have "errors ?c' = errors c" "\<not> closed ?c'" using nc by simp_all
      moreover have "only_reads ?c'" using orc by (rule only_reads_update)
      ultimately show ?thesis by blast
    next
      case True
      show ?thesis
      proof (cases "Type (getAction c (current c + 1)) = ReadActionType")
        case next_read: True
        let ?c1 = "c\<lparr>current := current c + 1\<rparr>"
        have eq: "Conn_Read c b = Conn_Read ?c1 b"
          using Read_retry nc rd True next_read by blast
        have p: "pending c = pending ?c1"
          using pending_at [OF inr] nth True by simp
        have "\<not> closed ?c1" "only_reads ?c1" using nc orc by simp_all
        from "1.IH" [OF nc rd _ next_read this] True
        show ?thesis unfolding eq p by simp
      next
        case next_other: False
        then have "getAction c (current c + 1) = nullAction"
          using only_reads_getAction [OF orc, of "current c + 1"] by simp
        then have "length (scenario c) \<le> current c + 1"
          using orc only_reads_null by blast
        then have p: "pending c = []"
          using pending_at [OF inr] nth True pending_past_end [of "c\<lparr>current := current c + 1\<rparr>"]
          by simp
        show ?thesis
          using Read_no_data nc rd True next_other p orc by simp
      qed
    qed
  qed
qed


lemma drain_reads:
  assumes "\<not> closed c" and "only_reads c" and "b \<noteq> []" and "length (pending c) \<le> k"
  shows "concat (map delivered (fst (perform_all c (replicate k (ReadCall b))))) = pending c
       \<and> list_all no_failure (fst (perform_all c (replicate k (ReadCall b))))
       \<and> errors (snd (perform_all c (replicate k (ReadCall b)))) = errors c
       \<and> \<not> closed (snd (perform_all c (replicate k (ReadCall b))))
       \<and> only_reads (snd (perform_all c (replicate k (ReadCall b))))
       \<and> pending (snd (perform_all c (replicate k (ReadCall b)))) = []"
  using assms
proof (induction k arbitrary: c)
  case 0
  then show ?case by simp
next
  case (Suc k)
  from Read_only_reads [OF Suc.prems(1,2), of b]
  obtain n c' where rd: "Conn_Read c b = (Return (n, None), take n (pending c) @ drop n b, c')"
    and nb: "n \<le> length b" and np: "n \<le> length (pending c)"
    and pos: "b \<noteq> [] \<and> pending c \<noteq> [] \<longrightarrow> 0 < n"
    and p': "pending c' = drop n (pending c)"
    and e': "errors c' = errors c" and nc': "\<not> closed c'" and or': "only_reads c'"
    by blast
  have len: "length (pending c') \<le> k"
  proof (cases "pending c = []")
    case True
    then show ?thesis using p' by simp
  next
    case False
    then have "0 < n" using pos Suc.prems(3) by simp
    then show ?thesis using p' np Suc.prems(4) by simp
  qed
  define R where "R = perform_all c' (replicate k (ReadCall b))"
  note IH = Suc.IH [OF nc' or' Suc.prems(3) len, folded R_def, unfolded e' p']
  have pa: "perform_all c (replicate (Suc k) (ReadCall b)) =
      (ReadReply (Return (n, None)) (take n (pending c) @ drop n b) # fst R, snd R)"
    using rd by (simp add: R_def split_beta)
  have del: "delivered (ReadReply (Return (n, None)) (take n (pending c) @ drop n b)) =
      take n (pending c)"
    using np by (simp add: min_absorb2)
  have parts: "concat (map delivered (fst R)) = drop n (pending c)"
      "list_all no_failure (fst R)" "errors (snd R) = errors c" "\<not> closed (snd R)"
      "only_reads (snd R)" "pending (snd R) = []"
    using IH by blast+
  show ?case
    unfolding pa by (simp add: del parts del: delivered.simps)
qed

lemma Read_nothing_pending:
  assumes "\<not> closed c" and "only_reads c" and "pending c = []"
  shows "fst (Conn_Read c b) = Return (0, None)
       \<and> fst (snd (Conn_Read c b)) = b
       \<and> errors (snd (snd (Conn_Read c b))) = errors c"
  using Read_only_reads [OF assms(1,2), of b] assms(3) by auto

text \<open>
  C9. On a connection that is not closed, with a read action with empty data at the
  cursor: if the next action is a read action too, \<^verbatim>\<open>Read\<close> is \<^verbatim>\<open>Read\<close> on the connection
  with the cursor advanced by one (it advances and retries); if the next action is not a
  read action, and also when the cursor is past the end of the scenario, it returns 0
  with no error and changes nothing. So for a scenario of read actions only and a
  non-empty buffer, repeated calls (at least as many as there are bytes pending) deliver
  the pending data of the actions in scenario order, every call without error and none
  appending an error, and a further call returns 0 with no error.
\<close>

theorem C9_Read_adjacent_reads:
  assumes "\<not> closed c"
  shows "(getAction c (current c) = readAction [] orig
            \<and> Type (getAction c (current c + 1)) = ReadActionType
          \<longrightarrow> Conn_Read c b = Conn_Read (c\<lparr>current := current c + 1\<rparr>) b)
       \<and> (getAction c (current c) = readAction [] orig
            \<and> Type (getAction c (current c + 1)) \<noteq> ReadActionType
          \<longrightarrow> Conn_Read c b = (Return (0, None), b, c))
       \<and> (getAction c (current c) = nullAction \<longrightarrow> Conn_Read c b = (Return (0, None), b, c))
       \<and> (only_reads c \<and> b \<noteq> [] \<and> length (pending c) \<le> k
          \<longrightarrow> concat (map delivered (fst (perform_all c (replicate k (ReadCall b))))) = pending c
            \<and> list_all no_failure (fst (perform_all c (replicate k (ReadCall b))))
            \<and> errors (snd (perform_all c (replicate k (ReadCall b)))) = errors c
            \<and> fst (Conn_Read (snd (perform_all c (replicate k (ReadCall b)))) b) = Return (0, None)
            \<and> errors (snd (snd (Conn_Read (snd (perform_all c (replicate k (ReadCall b)))) b)))
                = errors c)"
proof (intro conjI impI)
  assume a: "getAction c (current c) = readAction [] orig
      \<and> Type (getAction c (current c + 1)) = ReadActionType"
  then show "Conn_Read c b = Conn_Read (c\<lparr>current := current c + 1\<rparr>) b"
    using Read_retry assms by blast
next
  assume a: "getAction c (current c) = readAction [] orig
      \<and> Type (getAction c (current c + 1)) \<noteq> ReadActionType"
  then show "Conn_Read c b = (Return (0, None), b, c)"
    using Read_no_data assms by blast
next
  assume "getAction c (current c) = nullAction"
  then show "Conn_Read c b = (Return (0, None), b, c)"
    using Read_past_end assms by blast
next
  assume a: "only_reads c \<and> b \<noteq> [] \<and> length (pending c) \<le> k"
  let ?c' = "snd (perform_all c (replicate k (ReadCall b)))"
  from a have d: "concat (map delivered (fst (perform_all c (replicate k (ReadCall b))))) = pending c
       \<and> list_all no_failure (fst (perform_all c (replicate k (ReadCall b))))
       \<and> errors ?c' = errors c \<and> \<not> closed ?c' \<and> only_reads ?c' \<and> pending ?c' = []"
    using drain_reads [of c b k] assms by blast
  then have r: "fst (Conn_Read ?c' b) = Return (0, None)
       \<and> errors (snd (snd (Conn_Read ?c' b))) = errors ?c'"
    using Read_nothing_pending [of ?c' b] by blast
  show "concat (map delivered (fst (perform_all c (replicate k (ReadCall b))))) = pending c"
    using d by blast
  show "list_all no_failure (fst (perform_all c (replicate k (ReadCall b))))"
    using d by blast
  show "errors ?c' = errors c" using d by blast
  show "fst (Conn_Read ?c' b) = Return (0, None)" using r by blast
  show "errors (snd (snd (Conn_Read ?c' b))) = errors c" using r d by simp
qed


text \<open>
  An empty read action before a read action, before a close action, the empty scenario,
  and three 2-byte reads over \<open>[Read "su", Read "", Read "n"]\<close>.
\<close>

theorem C9_Read_adjacent_reads_witness:
  "Conn_Read \<lparr>errors = [], scenario = [readAction [] ''sun'', readAction ''mon'' ''mon''],
              current = 0, closed = False\<rparr> ''....'' =
     (Return (3, None), ''mon.'',
      \<lparr>errors = [], scenario = [readAction [] ''sun'', readAction [] ''mon''],
       current = 1, closed = False\<rparr>)
   \<and> Conn_Read \<lparr>errors = [], scenario = [readAction [] ''hello world'', closeAction],
                current = 0, closed = False\<rparr> ''....'' =
     (Return (0, None), ''....'',
      \<lparr>errors = [], scenario = [readAction [] ''hello world'', closeAction],
       current = 0, closed = False\<rparr>)
   \<and> Conn_Read New ''....'' = (Return (0, None), ''....'', New)
   \<and> only_reads (SetExpectedActions New [Read ''su'', Read [], Read ''n''])
   \<and> pending (SetExpectedActions New [Read ''su'', Read [], Read ''n'']) = ''sun''
   \<and> concat (map delivered (fst (perform_all
         (SetExpectedActions New [Read ''su'', Read [], Read ''n''])
         (replicate 3 (ReadCall ''..''))))) = ''sun''
   \<and> errors (snd (perform_all (SetExpectedActions New [Read ''su'', Read [], Read ''n''])
         (replicate 3 (ReadCall ''..'')))) = []"
proof -
  let ?c1 = "\<lparr>errors = [], scenario = [readAction [] ''sun'', readAction ''mon'' ''mon''],
              current = 0, closed = False\<rparr>"
  let ?c2 = "\<lparr>errors = [], scenario = [readAction [] ''hello world'', closeAction],
              current = 0, closed = False\<rparr>"
  let ?c4 = "SetExpectedActions New [Read ''su'', Read [], Read ''n'']"
  have p4: "pending ?c4 = ''sun''" by (simp add: pending_def conn_defs)
  have o4: "only_reads ?c4" by (simp add: only_reads_def conn_defs)
  have n1: "\<not> closed ?c1" and n2: "\<not> closed ?c2" and n3: "\<not> closed New"
    and n4: "\<not> closed ?c4"
    by (simp_all add: conn_defs)
  have r1: "Conn_Read (?c1\<lparr>current := current ?c1 + 1\<rparr>) ''....'' =
     (Return (3, None), ''mon.'',
      \<lparr>errors = [], scenario = [readAction [] ''sun'', readAction [] ''mon''],
       current = 1, closed = False\<rparr>)"
    by (simp add: Conn_Read.simps conn_defs)
  show ?thesis
    using C9_Read_adjacent_reads [OF n1, of "''sun''" "''....''"]
      C9_Read_adjacent_reads [OF n2, of "''hello world''" "''....''"]
      C9_Read_adjacent_reads [OF n3, of "[]" "''....''"]
      C9_Read_adjacent_reads [OF n4, of "[]" "''..''" 3]
      r1 p4 o4
    by (simp add: conn_defs)
qed

subsection \<open>How the cursor moves\<close>

lemma same_length_eq: "same b w \<Longrightarrow> length b = length w \<Longrightarrow> w = b"
  by (simp add: same_iff list_eq_iff_nth_eq)

lemma passed_step:
  assumes "discharged x (getAction c k)"
    and "Suc k \<le> k'"
    and "\<forall>i. Suc k \<le> i \<and> i < k' \<longrightarrow> discharged x (getAction c i)"
  shows "k \<le> k' \<and> (\<forall>i. k \<le> i \<and> i < k' \<longrightarrow> discharged x (getAction c i))"
proof (intro conjI allI impI)
  show "k \<le> k'" using assms(2) by simp
next
  fix i assume "k \<le> i \<and> i < k'"
  then consider "i = k" | "Suc k \<le> i \<and> i < k'" by linarith
  then show "discharged x (getAction c i)"
    using assms(1,3) by cases auto
qed

lemma Read_cursor:
  assumes "\<not> closed c"
  shows "current c \<le> current (snd (snd (Conn_Read c b)))
       \<and> (\<forall>i. current c \<le> i \<and> i < current (snd (snd (Conn_Read c b)))
              \<longrightarrow> discharged (ReadCall b) (getAction c i))"
  using assms
proof (induction c b rule: Conn_Read.induct)
  case (1 c b)
  note nc = \<open>\<not> closed c\<close>
  show ?case
  proof (cases "getAction c (current c)")
    case (readAction rdata orig)
    show ?thesis
    proof (cases "rdata = []")
      case False
      show ?thesis using Read_data [OF nc readAction False, of b] by auto
    next
      case True
      show ?thesis
      proof (cases "Type (getAction c (current c + 1)) = ReadActionType")
        case next_read: True
        let ?c1 = "c\<lparr>current := current c + 1\<rparr>"
        have eq: "Conn_Read c b = Conn_Read ?c1 b"
          using Read_retry nc readAction True next_read by blast
        have "\<not> closed ?c1" using nc by simp
        from "1.IH" [OF nc readAction _ next_read this] True
        have ih: "Suc (current c) \<le> current (snd (snd (Conn_Read ?c1 b)))"
          "\<forall>i. Suc (current c) \<le> i \<and> i < current (snd (snd (Conn_Read ?c1 b)))
              \<longrightarrow> discharged (ReadCall b) (getAction c i)"
          by simp_all
        have d: "discharged (ReadCall b) (getAction c (current c))"
          using readAction True by simp
        show ?thesis unfolding eq by (rule passed_step [OF d ih])
      next
        case False
        show ?thesis using Read_no_data [OF nc, of orig b] readAction True False by auto
      qed
    qed
  next
    case (writeAction wdata orig)
    then show ?thesis
      using nc by (subst (1 2) Conn_Read.simps) (auto simp: Let_def addError_def le_less Suc_le_eq)
  next
    case closeAction
    then show ?thesis
      using nc by (subst (1 2) Conn_Read.simps) (auto simp: addError_def)
  next
    case nullAction
    then show ?thesis using Read_past_end [OF nc nullAction, of b] by auto
  qed
qed

lemma Write_cursor:
  assumes "\<not> closed c"
  shows "current c \<le> current (snd (Conn_Write c b))
       \<and> (\<forall>i. current c \<le> i \<and> i < current (snd (Conn_Write c b))
              \<longrightarrow> discharged (WriteCall b) (getAction c i))"
  using assms
proof (induction c b rule: Conn_Write.induct)
  case (1 c b)
  note nc = \<open>\<not> closed c\<close>
  show ?case
  proof (cases "getAction c (current c)")
    case (readAction rdata orig)
    show ?thesis
    proof (cases "rdata = []")
      case False
      then show ?thesis
        using nc readAction by (subst (1 2) Conn_Write.simps) (auto simp: addError_def)
    next
      case True
      let ?c1 = "c\<lparr>current := current c + 1\<rparr>"
      have eq: "Conn_Write c b = Conn_Write ?c1 b"
        using nc readAction True by (subst Conn_Write.simps) simp
      have "\<not> closed ?c1" using nc by simp
      from "1.IH" [OF nc readAction _ this] True
      have ih: "Suc (current c) \<le> current (snd (Conn_Write ?c1 b))"
        "\<forall>i. Suc (current c) \<le> i \<and> i < current (snd (Conn_Write ?c1 b))
            \<longrightarrow> discharged (WriteCall b) (getAction c i)"
        by simp_all
      have d: "discharged (WriteCall b) (getAction c (current c))"
        using readAction True by simp
      show ?thesis unfolding eq by (rule passed_step [OF d ih])
    qed
  next
    case (writeAction wdata orig)
    then show ?thesis
      using nc by (subst (1 2) Conn_Write.simps)
        (auto simp: addError_def le_less Suc_le_eq dest: same_length_eq)
  next
    case closeAction
    then show ?thesis
      using nc by (subst (1 2) Conn_Write.simps) (auto simp: addError_def)
  next
    case nullAction
    then show ?thesis
      using nc by (subst (1 2) Conn_Write.simps) auto
  qed
qed

lemma Close_cursor:
  assumes "\<not> closed c"
  shows "current c \<le> current (snd (Conn_Close c))
       \<and> (\<forall>i. current c \<le> i \<and> i < current (snd (Conn_Close c))
              \<longrightarrow> discharged CloseCall (getAction c i))"
  using assms
proof (induction c rule: Conn_Close.induct)
  case (1 c)
  note nc = \<open>\<not> closed c\<close>
  show ?case
  proof (cases "getAction c (current c)")
    case (readAction rdata orig)
    show ?thesis
    proof (cases "rdata = []")
      case False
      then show ?thesis
        using nc readAction by (subst (1 2) Conn_Close.simps) (auto simp: addError_def)
    next
      case True
      let ?c1 = "c\<lparr>current := current c + 1\<rparr>"
      have eq: "Conn_Close c = Conn_Close ?c1"
        using nc readAction True by (subst Conn_Close.simps) simp
      have "\<not> closed ?c1" using nc by simp
      from "1.IH" [OF nc readAction _ this] True
      have ih: "Suc (current c) \<le> current (snd (Conn_Close ?c1))"
        "\<forall>i. Suc (current c) \<le> i \<and> i < current (snd (Conn_Close ?c1))
            \<longrightarrow> discharged CloseCall (getAction c i)"
        by simp_all
      have d: "discharged CloseCall (getAction c (current c))"
        using readAction True by simp
      show ?thesis unfolding eq by (rule passed_step [OF d ih])
    qed
  next
    case (writeAction wdata orig)
    then show ?thesis
      using nc by (subst (1 2) Conn_Close.simps) (auto simp: addError_def)
  next
    case closeAction
    then show ?thesis
      using nc by (subst (1 2) Conn_Close.simps) (auto simp: le_less Suc_le_eq)
  next
    case nullAction
    then show ?thesis
      using nc by (subst (1 2) Conn_Close.simps) auto
  qed
qed


lemma Write_skip_empty_read:
  assumes "\<not> closed c" and "getAction c (current c) = readAction [] orig"
  shows "Conn_Write c b = Conn_Write (c\<lparr>current := current c + 1\<rparr>) b"
  using assms by (subst Conn_Write.simps) simp

lemma Close_skip_empty_read:
  assumes "\<not> closed c" and "getAction c (current c) = readAction [] orig"
  shows "Conn_Close c = Conn_Close (c\<lparr>current := current c + 1\<rparr>)"
  using assms by (subst Conn_Close.simps) simp

lemma perform_cursor:
  assumes "\<not> closed c"
  shows "current c \<le> current (snd (perform c x))
       \<and> (\<forall>i. current c \<le> i \<and> i < current (snd (perform c x))
              \<longrightarrow> discharged x (getAction c i))"
proof (cases x)
  case (ReadCall b)
  then show ?thesis using Read_cursor [OF assms, of b] by (simp add: split_beta)
next
  case (WriteCall b)
  then show ?thesis using Write_cursor [OF assms, of b] by (simp add: split_beta)
next
  case CloseCall
  then show ?thesis using Close_cursor [OF assms] by (simp add: split_beta)
qed

text \<open>
  C3, as the code has it. For every \<^verbatim>\<open>Read\<close>, \<^verbatim>\<open>Write\<close> or \<^verbatim>\<open>Close\<close> call on a connection
  that is not closed, the cursor does not move backwards, and every action it moves past
  is discharged for that call. A read action with no data left at the cursor is skipped
  by \<^verbatim>\<open>Write\<close> and by \<^verbatim>\<open>Close\<close>, which continue as on the connection with the cursor
  advanced by one, and by \<^verbatim>\<open>Read\<close> when the next action is a read action; when the next
  action is not a read action, \<^verbatim>\<open>Read\<close> returns 0 with no error and leaves the cursor.
\<close>

theorem C3_cursor_forward_over_discharged:
  assumes "\<not> closed c"
  shows "current c \<le> current (snd (perform c x))
       \<and> (\<forall>i. current c \<le> i \<and> i < current (snd (perform c x))
              \<longrightarrow> discharged x (getAction c i))
       \<and> (getAction c (current c) = readAction [] orig \<longrightarrow>
            Conn_Write c b = Conn_Write (c\<lparr>current := current c + 1\<rparr>) b
          \<and> Conn_Close c = Conn_Close (c\<lparr>current := current c + 1\<rparr>)
          \<and> (Type (getAction c (current c + 1)) = ReadActionType \<longrightarrow>
               Conn_Read c b = Conn_Read (c\<lparr>current := current c + 1\<rparr>) b)
          \<and> (Type (getAction c (current c + 1)) \<noteq> ReadActionType \<longrightarrow>
               Conn_Read c b = (Return (0, None), b, c)))"
  using perform_cursor [OF assms, of x]
    Write_skip_empty_read [OF assms, of orig b] Close_skip_empty_read [OF assms, of orig]
    Read_retry [OF assms, of orig b] Read_no_data [OF assms, of orig b]
  by blast

text \<open>
  C3 as stated has every read or write action with no data left skipped by whichever
  call comes next. The second read of \<^verbatim>\<open>TestReadCloseScenario\<close> (the read action
  drained, a close action next) returns 0 with no error and leaves the cursor at 0, as
  that test expects.
\<close>

theorem C3_empty_action_not_skipped:
  "Conn_Read \<lparr>errors = [], scenario = [readAction [] ''hello world'', closeAction],
              current = 0, closed = False\<rparr> ''....'' =
     (Return (0, None), ''....'',
      \<lparr>errors = [], scenario = [readAction [] ''hello world'', closeAction],
       current = 0, closed = False\<rparr>)"
  by (simp add: Conn_Read.simps conn_defs)

text \<open>
  A \<^verbatim>\<open>Write\<close> that passes an empty read action and the write action it completes; \<^verbatim>\<open>Close\<close>
  and \<^verbatim>\<open>Read\<close> on the same connection; \<^verbatim>\<open>Read\<close> over an empty read action before another.
\<close>

theorem C3_cursor_forward_over_discharged_witness:
  "current (snd (perform
      \<lparr>errors = [], scenario = [readAction [] ''hi'', writeAction ''ok'' ''ok'', closeAction],
       current = 0, closed = False\<rparr> (WriteCall ''ok''))) = 2
   \<and> discharged (WriteCall ''ok'') (readAction [] ''hi'')
   \<and> discharged (WriteCall ''ok'') (writeAction ''ok'' ''ok'')
   \<and> Conn_Close
        \<lparr>errors = [], scenario = [readAction [] ''hi'', writeAction ''ok'' ''ok'', closeAction],
         current = 0, closed = False\<rparr> =
       (Some (ShouldWriteButClose 2),
        \<lparr>errors = [ShouldWriteButClose 2],
         scenario = [readAction [] ''hi'', writeAction ''ok'' ''ok'', closeAction],
         current = 1, closed = False\<rparr>)
   \<and> Conn_Read
        \<lparr>errors = [], scenario = [readAction [] ''hi'', writeAction ''ok'' ''ok'', closeAction],
         current = 0, closed = False\<rparr> ''ok'' =
       (Return (0, None), ''ok'',
        \<lparr>errors = [], scenario = [readAction [] ''hi'', writeAction ''ok'' ''ok'', closeAction],
         current = 0, closed = False\<rparr>)
   \<and> Conn_Read \<lparr>errors = [], scenario = [readAction [] ''sun'', readAction ''mon'' ''mon''],
                current = 0, closed = False\<rparr> ''....'' =
       (Return (3, None), ''mon.'',
        \<lparr>errors = [], scenario = [readAction [] ''sun'', readAction [] ''mon''],
         current = 1, closed = False\<rparr>)"
proof -
  let ?c0 = "\<lparr>errors = [], scenario = [readAction [] ''hi'', writeAction ''ok'' ''ok'', closeAction],
              current = 0, closed = False\<rparr>"
  let ?c2 = "\<lparr>errors = [], scenario = [readAction [] ''sun'', readAction ''mon'' ''mon''],
              current = 0, closed = False\<rparr>"
  have n0: "\<not> closed ?c0" and n2: "\<not> closed ?c2"
    by simp_all
  show ?thesis
    using C3_cursor_forward_over_discharged [OF n0, of "WriteCall ''ok''" "''hi''" "''ok''"]
      C3_cursor_forward_over_discharged [OF n2, of CloseCall "''sun''" "''....''"]
    by (simp add: conn_defs Conn_Write.simps Conn_Close.simps Conn_Read.simps)
qed

end
